theory Spec2Isabelle
  imports Main
begin

section \<open>Strings and numbers as the component sees them\<close>

text \<open>
  A JavaScript string is a sequence of UTF-16 code units. The model works on
  \<^typ>\<open>string\<close>, whose characters are read as the code units below 256
  (ASCII and the Latin-1 supplement). On that range \<open>\s\<close> and \<open>trim\<close> treat
  tab, line feed, vertical tab, form feed, carriage return, space and the
  no-break space (160) as white space, \<open>\w\<close> is \<open>[A-Za-z0-9_]\<close>, and
  \<open>toLowerCase\<close> moves \<open>A\<close>..\<open>Z\<close> and the Latin-1 capitals (192..222 without the
  multiplication sign 215) up by 32 and leaves every other code unit alone.
\<close>

definition code_unit :: "char \<Rightarrow> nat" where
  "code_unit c = of_char c"

definition is_space :: "char \<Rightarrow> bool" where
  "is_space c = (code_unit c \<in> {9, 10, 11, 12, 13, 32, 160})"

definition is_lower :: "char \<Rightarrow> bool" where
  "is_lower c = (97 \<le> code_unit c \<and> code_unit c \<le> 122)"

definition is_upper :: "char \<Rightarrow> bool" where
  "is_upper c = (65 \<le> code_unit c \<and> code_unit c \<le> 90)"

definition is_digit :: "char \<Rightarrow> bool" where
  "is_digit c = (48 \<le> code_unit c \<and> code_unit c \<le> 57)"

definition is_word :: "char \<Rightarrow> bool" where
  "is_word c = (is_lower c \<or> is_upper c \<or> is_digit c \<or> c = CHR ''_'')"

definition is_hyphen :: "char \<Rightarrow> bool" where
  "is_hyphen c = (c = CHR ''-'')"

definition lower_char :: "char \<Rightarrow> char" where
  "lower_char c =
     (if is_upper c \<or> (192 \<le> code_unit c \<and> code_unit c \<le> 222 \<and> code_unit c \<noteq> 215)
      then char_of (code_unit c + 32) else c)"

definition toLowerCase :: "string \<Rightarrow> string" where
  "toLowerCase s = map lower_char s"

definition drop_trailing :: "(char \<Rightarrow> bool) \<Rightarrow> string \<Rightarrow> string" where
  "drop_trailing P s = rev (dropWhile P (rev s))"

definition trim :: "string \<Rightarrow> string" where
  "trim s = drop_trailing is_space (dropWhile is_space s)"

text \<open>\<open>.replace(/[^\w\s-]/g, '')\<close>: every character outside the class is deleted.\<close>

definition kept :: "char \<Rightarrow> bool" where
  "kept c = (is_word c \<or> is_space c \<or> is_hyphen c)"

definition remove_special :: "string \<Rightarrow> string" where
  "remove_special s = filter kept s"

text \<open>\<open>.replace(/[\s_-]+/g, '-')\<close>: each maximal run of separators becomes one hyphen.\<close>

definition is_sep :: "char \<Rightarrow> bool" where
  "is_sep c = (is_space c \<or> c = CHR ''_'' \<or> is_hyphen c)"

function hyphenate :: "string \<Rightarrow> string" where
  "hyphenate [] = []"
| "hyphenate (c # cs) =
     (if is_sep c then CHR ''-'' # hyphenate (dropWhile is_sep cs) else c # hyphenate cs)"
  by pat_completeness auto
termination
  by (relation "measure length") (auto simp: length_dropWhile_le le_imp_less_Suc)

text \<open>\<open>.replace(/^-+|-+$/g, '')\<close>: the leading run and the trailing run of hyphens go.\<close>

definition strip_hyphens :: "string \<Rightarrow> string" where
  "strip_hyphens s = drop_trailing is_hyphen (dropWhile is_hyphen s)"

definition base_slug :: "string \<Rightarrow> string" where
  "base_slug text = strip_hyphens (hyphenate (remove_special (trim (toLowerCase text))))"

text \<open>
  Decimal rendering of a number inside a template literal. JavaScript prints a
  non-negative integer this way as long as it is below 1e21; from there on it
  prints an exponent form (\<open>1e+21\<close>), so counts that large are outside the model.
\<close>

definition digit_char :: "nat \<Rightarrow> char" where
  "digit_char d = char_of (48 + d)"

fun show_nat :: "nat \<Rightarrow> string" where
  "show_nat n = (if n < 10 then [digit_char n] else show_nat (n div 10) @ [digit_char (n mod 10)])"

declare show_nat.simps [simp del]

section \<open>The slug generator\<close>

text \<open>
  \<open>generateSlug\<close> closes over the form fields \<open>slugPrefix\<close> and \<open>slugSuffix\<close>; here
  they are its first two arguments. An empty string is falsy, so \<open>if (!text)\<close>,
  \<open>if (slugPrefix)\<close> and \<open>if (slugSuffix)\<close> test for the empty string.
\<close>

definition generateSlug :: "string \<Rightarrow> string \<Rightarrow> string \<Rightarrow> string" where
  "generateSlug slugPrefix slugSuffix text =
     (if text = [] then []
      else
        let slug = base_slug text;
            slug = (if slugPrefix \<noteq> [] then slugPrefix @ ''-'' @ slug else slug);
            slug = (if slugSuffix \<noteq> [] then slug @ ''-'' @ slugSuffix else slug)
        in slug)"

text \<open>
  What the specification asks of a slug: only lowercase letters, digits and
  hyphens, no two hyphens in a row, no hyphen at either end.
\<close>

definition is_slug_char :: "char \<Rightarrow> bool" where
  "is_slug_char c = (is_lower c \<or> is_digit c \<or> is_hyphen c)"

fun single_hyphens :: "string \<Rightarrow> bool" where
  "single_hyphens (a # b # cs) = (\<not> (is_hyphen a \<and> is_hyphen b) \<and> single_hyphens (b # cs))"
| "single_hyphens _ = True"

definition clean_slug :: "string \<Rightarrow> bool" where
  "clean_slug s =
     (list_all is_slug_char s \<and> single_hyphens s \<and>
      (s = [] \<or> \<not> is_hyphen (hd s) \<and> \<not> is_hyphen (last s)))"

section \<open>Documents, configuration and the store client\<close>

text \<open>
  The values a property of a document can hold, as far as the component looks
  at them: absent (\<open>undefined\<close> or \<open>null\<close>), a string, an object such as the slug
  value \<open>{ _type: 'slug', current: ... }\<close>, or a function. \<open>DocumentWithSlug\<close> has
  the required strings \<open>_id\<close> and \<open>_type\<close> and any number of further attributes.
\<close>

datatype jsval = JUndefined | JStr string | JObj "(string \<times> jsval) list" | JFun

record document =
  doc_id :: string
  doc_type :: string
  props :: "(string \<times> jsval) list"

text \<open>The attributes a document has of its own: the data the store holds for it.\<close>

definition own_prop :: "document \<Rightarrow> string \<Rightarrow> jsval option" where
  "own_prop doc k =
     (if k = ''_id'' then Some (JStr (doc_id doc))
      else if k = ''_type'' then Some (JStr (doc_type doc))
      else map_of (props doc) k)"

text \<open>
  A fetched document is a plain object, so a property it does not have of its
  own is looked up in \<open>Object.prototype\<close>: the methods found there are functions,
  \<open>__proto__\<close> is the prototype object itself, and any other name is absent.
\<close>

definition object_prototype_methods :: "string list" where
  "object_prototype_methods =
     [''constructor'', ''hasOwnProperty'', ''isPrototypeOf'', ''propertyIsEnumerable'',
      ''toLocaleString'', ''toString'', ''valueOf'', ''__defineGetter__'', ''__defineSetter__'',
      ''__lookupGetter__'', ''__lookupSetter__'']"

definition inherited :: "string \<Rightarrow> jsval" where
  "inherited k =
     (if k = ''__proto__'' then JObj []
      else if k \<in> set object_prototype_methods then JFun
      else JUndefined)"

text \<open>\<open>doc[key]\<close>\<close>

definition get_prop :: "document \<Rightarrow> string \<Rightarrow> jsval" where
  "get_prop doc k = (case own_prop doc k of Some v \<Rightarrow> v | None \<Rightarrow> inherited k)"

text \<open>
  \<open>v?.current\<close>: absent on an absent value; a string and a function have no such
  property, and neither has \<open>Object.prototype\<close>.
\<close>

fun current_of :: "jsval \<Rightarrow> jsval" where
  "current_of (JObj kvs) = (case map_of kvs ''current'' of None \<Rightarrow> JUndefined | Some v \<Rightarrow> v)"
| "current_of _ = JUndefined"

fun truthy :: "jsval \<Rightarrow> bool" where
  "truthy JUndefined = False"
| "truthy (JStr s) = (s \<noteq> [])"
| "truthy (JObj _) = True"
| "truthy JFun = True"

text \<open>\<open>a || b\<close>\<close>

definition js_or :: "jsval \<Rightarrow> jsval \<Rightarrow> jsval" where
  "js_or a b = (if truthy a then a else b)"

text \<open>
  The props of the component (\<open>batchSize\<close>, \<open>dryRun\<close>, \<open>maxDocuments\<close>) and the form
  fields it keeps with \<open>useState\<close>, as one configuration value. The two counts are
  natural numbers.
\<close>

record config =
  selectedType :: string
  searchQuery :: string
  useCustomQuery :: bool
  customGroqQuery :: string
  slugField :: string
  sourceField :: string
  slugPrefix :: string
  slugSuffix :: string
  replaceExisting :: bool
  batchSize :: nat
  dryRun :: bool
  maxDocuments :: nat

text \<open>
  A rejected promise carries either an \<open>Error\<close> with its message or some other
  value; \<open>error instanceof Error ? error.message : fallback\<close> reads it.
\<close>

datatype thrown = Err string | NonError

fun error_message :: "string \<Rightarrow> thrown \<Rightarrow> string" where
  "error_message fallback (Err m) = m"
| "error_message fallback NonError = fallback"

text \<open>
  The store client is outside the repository and is a parameter. \<open>'w\<close> is the
  state of the outside world (the store, the network, the clock); every call
  may fail and may change it. \<open>client.fetch\<close> is used at two result shapes:
  \<open>fetch_docs\<close> is \<open>client.fetch(query)\<close> answering the scan with an array of
  documents, \<open>fetch_first\<close> is \<open>client.fetch(query, params)\<close> answering the
  \<open>[0]\<close> probe with a document or \<open>null\<close>. \<open>patch_commit id field slug\<close> is
  \<open>client.patch(id).set({[field]: {_type: 'slug', current: slug}}).commit()\<close>.
\<close>

record 'w client =
  fetch_docs :: "string \<Rightarrow> 'w \<Rightarrow> (thrown + document list) \<times> 'w"
  fetch_first :: "string \<Rightarrow> (string \<times> string) list \<Rightarrow> 'w \<Rightarrow> (thrown + document option) \<times> 'w"
  patch_commit :: "string \<Rightarrow> string \<Rightarrow> string \<Rightarrow> 'w \<Rightarrow> (thrown + unit) \<times> 'w"

text \<open>The calls made on the client, in order.\<close>

datatype call = Fetch string "(string \<times> string) list" | PatchCommit string string string

record ConversionResult =
  converted :: nat
  errors :: "string list"
  slugsGenerated :: "string list"

text \<open>
  The state of the component and what it has told its host: \<open>messages\<close> holds
  every \<open>setMessage\<close> in order, \<open>onComplete_calls\<close> and \<open>onError_calls\<close> the
  arguments handed to the two callbacks (a host that passed no callback does not
  see them). \<open>calls\<close> logs the calls made on the client.
\<close>

record 'w app =
  documents :: "document list"
  documentsToConvert :: "document list"
  messages :: "string list"
  isLoading :: bool
  isScanning :: bool
  onComplete_calls :: "ConversionResult list"
  onError_calls :: "string list"
  calls :: "call list"
  world :: 'w

definition setMessage :: "string \<Rightarrow> 'w app \<Rightarrow> 'w app" where
  "setMessage m s = s\<lparr>messages := messages s @ [m]\<rparr>"

section \<open>The document scanner\<close>

definition dquote :: string where
  "dquote = [CHR 0x22]"

definition newline :: string where
  "newline = [CHR 0x0A]"

definition typeFilter :: "config \<Rightarrow> string" where
  "typeFilter cfg =
     (if selectedType cfg \<noteq> [] then ''_type == '' @ dquote @ selectedType cfg @ dquote
      else ''defined(_type)'')"

definition searchFilter :: "config \<Rightarrow> string" where
  "searchFilter cfg =
     (if searchQuery cfg \<noteq> []
      then '' && (title match '' @ dquote @ ''*'' @ searchQuery cfg @ ''*'' @ dquote @
           '' || name match '' @ dquote @ ''*'' @ searchQuery cfg @ ''*'' @ dquote @ '')''
      else [])"

definition structured_query :: "config \<Rightarrow> string" where
  "structured_query cfg =
     ''*['' @ typeFilter cfg @ searchFilter cfg @ ''][0...'' @ show_nat (maxDocuments cfg) @ ''] {'' @ newline @
     ''          _id,'' @ newline @
     ''          _type,'' @ newline @
     ''          title,'' @ newline @
     ''          name,'' @ newline @
     ''          '' @ slugField cfg @ newline @
     ''        }''"

definition scan_query :: "config \<Rightarrow> string" where
  "scan_query cfg =
     (if useCustomQuery cfg \<and> customGroqQuery cfg \<noteq> [] then customGroqQuery cfg
      else structured_query cfg)"

text \<open>The callback of \<open>docs.filter\<close>; \<open>filter\<close> keeps a document when the result is truthy.\<close>

definition needsConversion :: "config \<Rightarrow> document \<Rightarrow> bool" where
  "needsConversion cfg doc =
     (let hasSlug = current_of (get_prop doc (slugField cfg));
          hasSource = js_or (js_or (get_prop doc (sourceField cfg)) (get_prop doc ''title''))
                            (get_prop doc ''name'')
      in if replaceExisting cfg then truthy hasSource
         else truthy hasSource \<and> \<not> truthy hasSlug)"

definition scanForDocuments :: "'w client option \<Rightarrow> config \<Rightarrow> 'w app \<Rightarrow> 'w app" where
  "scanForDocuments client cfg s =
     (case client of
        None \<Rightarrow> s
      | Some cl \<Rightarrow>
          let s1 = setMessage ''Scanning for documents...'' (s\<lparr>isScanning := True\<rparr>);
              query = scan_query cfg;
              s2 = s1\<lparr>calls := calls s1 @ [Fetch query []]\<rparr>
          in case fetch_docs cl query (world s2) of
               (Inr docs, w) \<Rightarrow>
                 let needs = filter (needsConversion cfg) docs
                 in (setMessage (''Found '' @ show_nat (length needs) @
                                 '' documents that need slug conversion'')
                       (s2\<lparr>world := w, documents := docs, documentsToConvert := needs\<rparr>))
                    \<lparr>isScanning := False\<rparr>
             | (Inl e, w) \<Rightarrow>
                 let errorMessage = error_message ''Scan failed'' e
                 in (setMessage (''Scan error: '' @ errorMessage) (s2\<lparr>world := w\<rparr>))
                    \<lparr>onError_calls := onError_calls s2 @ [errorMessage], isScanning := False\<rparr>)"

section \<open>The conversion pipeline\<close>

text \<open>
  \<open>doc[sourceField] || doc.title || doc.name || doc._id\<close>, and \<open>generateSlug\<close> on
  that value: a falsy value gives the empty slug, a string is normalised, and on
  an object or a function the call of \<open>toLowerCase\<close> is a \<open>TypeError\<close> (message in
  V8's wording).
\<close>

definition resolve_source :: "config \<Rightarrow> document \<Rightarrow> jsval" where
  "resolve_source cfg doc =
     js_or (js_or (js_or (get_prop doc (sourceField cfg)) (get_prop doc ''title''))
                  (get_prop doc ''name''))
           (JStr (doc_id doc))"

fun generateSlug_of :: "config \<Rightarrow> jsval \<Rightarrow> thrown + string" where
  "generateSlug_of cfg JUndefined = Inr []"
| "generateSlug_of cfg (JStr s) = Inr (generateSlug (slugPrefix cfg) (slugSuffix cfg) s)"
| "generateSlug_of cfg (JObj _) = Inl (Err ''text.toLowerCase is not a function'')"
| "generateSlug_of cfg JFun = Inl (Err ''text.toLowerCase is not a function'')"

definition probe_query :: "string \<Rightarrow> string \<Rightarrow> string" where
  "probe_query ty field =
     ''*[_type == '' @ dquote @ ty @ dquote @ '' && '' @ field @
     ''.current == $slug && _id != $id][0]''"

definition probe_params :: "string \<Rightarrow> string \<Rightarrow> (string \<times> string) list" where
  "probe_params slug ident = [(''slug'', slug), (''id'', ident)]"

definition record_failure :: "document \<Rightarrow> thrown \<Rightarrow> ConversionResult \<Rightarrow> ConversionResult" where
  "record_failure doc e r =
     r\<lparr>errors := errors r @
          [''Failed to convert '' @ doc_id doc @ '': '' @ error_message ''Conversion failed'' e]\<rparr>"

definition record_success :: "string \<Rightarrow> ConversionResult \<Rightarrow> ConversionResult" where
  "record_success finalSlug r =
     r\<lparr>converted := converted r + 1, slugsGenerated := slugsGenerated r @ [finalSlug]\<rparr>"

text \<open>
  The body of \<open>for (const doc of batch)\<close>: the three accumulators travel in the
  \<^typ>\<open>ConversionResult\<close>, the world and the log of calls in the app state.
  \<open>date_now\<close> is \<open>Date.now()\<close>, a reading of the world's clock.
\<close>

text \<open>
  \<open>let finalSlug = newSlug; if (existingDoc) finalSlug = `${newSlug}-${Date.now()}`\<close>;
  the clock is read only when the probe found a document.
\<close>

definition final_slug ::
  "('w \<Rightarrow> nat \<times> 'w) \<Rightarrow> string \<Rightarrow> document option \<Rightarrow> 'w \<Rightarrow> string \<times> 'w" where
  "final_slug date_now newSlug existingDoc w =
     (case existingDoc of
        Some _ \<Rightarrow> (case date_now w of (t, w') \<Rightarrow> (newSlug @ ''-'' @ show_nat t, w'))
      | None \<Rightarrow> (newSlug, w))"

definition process_doc ::
  "('w \<Rightarrow> nat \<times> 'w) \<Rightarrow> 'w client \<Rightarrow> config \<Rightarrow> document \<Rightarrow>
   ConversionResult \<times> 'w app \<Rightarrow> ConversionResult \<times> 'w app" where
  "process_doc date_now cl cfg doc = (\<lambda>(r, s).
     (case generateSlug_of cfg (resolve_source cfg doc) of
        Inl e \<Rightarrow> (record_failure doc e r, s)
      | Inr newSlug \<Rightarrow>
          if newSlug = [] then
            (r\<lparr>errors := errors r @
                 [''Failed to generate slug for '' @ doc_id doc @ '': no source text found'']\<rparr>, s)
          else
            let query = probe_query (doc_type doc) (slugField cfg);
                params = probe_params newSlug (doc_id doc);
                s1 = s\<lparr>calls := calls s @ [Fetch query params]\<rparr>
            in (case fetch_first cl query params (world s1) of
                  (Inl e, w1) \<Rightarrow> (record_failure doc e r, s1\<lparr>world := w1\<rparr>)
                | (Inr existingDoc, w1) \<Rightarrow>
                    (case final_slug date_now newSlug existingDoc w1 of
                       (finalSlug, w2) \<Rightarrow>
                         if dryRun cfg then (record_success finalSlug r, s1\<lparr>world := w2\<rparr>)
                         else
                           let s2 = s1\<lparr>calls := calls s1 @
                                       [PatchCommit (doc_id doc) (slugField cfg) finalSlug]\<rparr>
                           in (case patch_commit cl (doc_id doc) (slugField cfg) finalSlug w2 of
                                 (Inl e, w3) \<Rightarrow> (record_failure doc e r, s2\<lparr>world := w3\<rparr>)
                               | (Inr _, w3) \<Rightarrow> (record_success finalSlug r, s2\<lparr>world := w3\<rparr>))))))"

text \<open>\<open>xs.slice(i, j)\<close> for \<open>0 \<le> i \<le> j\<close>\<close>

definition slice :: "'a list \<Rightarrow> nat \<Rightarrow> nat \<Rightarrow> 'a list" where
  "slice xs i j = take (j - i) (drop i xs)"

definition progress_message :: "config \<Rightarrow> nat \<Rightarrow> nat \<Rightarrow> string" where
  "progress_message cfg n m =
     (if dryRun cfg then ''Would convert'' else ''Converted'') @ '' '' @ show_nat n @ ''/'' @
     show_nat m @ '' documents...''"

definition complete_message :: "config \<Rightarrow> nat \<Rightarrow> string" where
  "complete_message cfg n =
     (if dryRun cfg then ''Dry run complete'' else ''Conversion complete'') @ '': '' @
     show_nat n @ '' documents processed''"

text \<open>
  \<open>for (let i = 0; i < documentsToConvert.length; i += batchSize)\<close>. With
  \<open>batchSize = 0\<close> the index never moves and the loop does not end, so the loop
  is a partial function: \<open>None\<close> stands for a run that never returns.
\<close>

partial_function (option) batch_loop ::
  "('w \<Rightarrow> nat \<times> 'w) \<Rightarrow> 'w client \<Rightarrow> config \<Rightarrow> document list \<Rightarrow> nat \<Rightarrow>
   ConversionResult \<times> 'w app \<Rightarrow> (ConversionResult \<times> 'w app) option" where
  "batch_loop date_now cl cfg docs i st =
     (if i < length docs then
        let batch = slice docs i (i + batchSize cfg);
            st1 = fold (process_doc date_now cl cfg) batch st;
            st2 = (fst st1, setMessage (progress_message cfg (converted (fst st1)) (length docs)) (snd st1))
        in batch_loop date_now cl cfg docs (i + batchSize cfg) st2
      else Some st)"

declare batch_loop.simps [code]

definition convertToSlugs ::
  "('w \<Rightarrow> nat \<times> 'w) \<Rightarrow> 'w client option \<Rightarrow> config \<Rightarrow> 'w app \<Rightarrow> 'w app option" where
  "convertToSlugs date_now client cfg s =
     (case client of
        None \<Rightarrow> Some s
      | Some cl \<Rightarrow>
          if documentsToConvert s = [] then Some s
          else
            let s1 = setMessage ''Converting IDs to slugs...'' (s\<lparr>isLoading := True\<rparr>);
                start = \<lparr>converted = 0, errors = [], slugsGenerated = []\<rparr>
            in case batch_loop date_now cl cfg (documentsToConvert s) 0 (start, s1) of
                 None \<Rightarrow> None
               | Some (result, s2) \<Rightarrow>
                   Some ((setMessage (complete_message cfg (converted result)) s2)
                         \<lparr>onComplete_calls := onComplete_calls s2 @ [result], isLoading := False\<rparr>))"

section \<open>The specification's wording of the candidate rule\<close>

text \<open>
  The specification speaks of the document's attributes, which are its own
  data. Non-empty text is a string that is not empty. A candidate has non-empty
  source text (in the configured source field, in a title or in a name) and
  either the replace-existing flag is set or the current value of its slug
  attribute is absent or the empty string.
\<close>

definition attribute :: "document \<Rightarrow> string \<Rightarrow> jsval" where
  "attribute doc k = (case own_prop doc k of Some v \<Rightarrow> v | None \<Rightarrow> JUndefined)"








section \<open>Observations on a run\<close>

definition is_patch :: "call \<Rightarrow> bool" where
  "is_patch c = (case c of PatchCommit _ _ _ \<Rightarrow> True | Fetch _ _ \<Rightarrow> False)"

text \<open>The calls of \<open>commit\<close> among the calls made.\<close>

definition patch_calls :: "'w app \<Rightarrow> call list" where
  "patch_calls s = filter is_patch (calls s)"

text \<open>The accumulators at the start of a run, and the state in which the loop starts.\<close>

definition start_result :: ConversionResult where
  "start_result = \<lparr>converted = 0, errors = [], slugsGenerated = []\<rparr>"

definition start_state :: "'w app \<Rightarrow> ConversionResult \<times> 'w app" where
  "start_state s = (start_result, setMessage ''Converting IDs to slugs...'' (s\<lparr>isLoading := True\<rparr>))"

text \<open>The state after the first \<open>k\<close> candidates have been processed, in order.\<close>

definition after_docs ::
  "('w \<Rightarrow> nat \<times> 'w) \<Rightarrow> 'w client \<Rightarrow> config \<Rightarrow> nat \<Rightarrow> 'w app \<Rightarrow> ConversionResult \<times> 'w app" where
  "after_docs date_now cl cfg k s =
     fold (process_doc date_now cl cfg) (take k (documentsToConvert s)) (start_state s)"

text \<open>
  What the store throws at a document whose candidate slug is \<open>newSlug\<close>, when its
  turn comes in world \<open>w\<close>: the error of the probe, or else, outside a dry run,
  the error of the commit.
\<close>

definition store_throws ::
  "('w \<Rightarrow> nat \<times> 'w) \<Rightarrow> 'w client \<Rightarrow> config \<Rightarrow> document \<Rightarrow> string \<Rightarrow> 'w \<Rightarrow> thrown option" where
  "store_throws date_now cl cfg doc newSlug w =
     (case fetch_first cl (probe_query (doc_type doc) (slugField cfg))
             (probe_params newSlug (doc_id doc)) w of
        (Inl e, _) \<Rightarrow> Some e
      | (Inr existingDoc, w1) \<Rightarrow>
          if dryRun cfg then None
          else (case final_slug date_now newSlug existingDoc w1 of
                  (finalSlug, w2) \<Rightarrow>
                    (case patch_commit cl (doc_id doc) (slugField cfg) finalSlug w2 of
                       (Inl e, _) \<Rightarrow> Some e
                     | (Inr _, _) \<Rightarrow> None)))"

text \<open>The part of the app state that processing a document never touches.\<close>

definition same_frame :: "'w app \<Rightarrow> 'w app \<Rightarrow> bool" where
  "same_frame s t =
     (documents t = documents s \<and> documentsToConvert t = documentsToConvert s \<and>
      messages t = messages s \<and> isLoading t = isLoading s \<and> isScanning t = isScanning s \<and>
      onComplete_calls t = onComplete_calls s \<and> onError_calls t = onError_calls s)"

text \<open>A client whose commits always succeed and leave the world as it is.\<close>

definition inert_commit :: "'w client \<Rightarrow> 'w client" where
  "inert_commit cl = cl\<lparr>patch_commit := \<lambda>_ _ _ w. (Inr (), w)\<rparr>"

section \<open>A store held in memory\<close>

text \<open>
  A small store to run the component against: a list of documents and a clock.
  It answers the probe for the slug field it is set up with, the scan query of
  the configuration it is set up with, and the raw query \<open>*\<close>, which in GROQ
  selects every document. A search term is understood when it is made of letters
  and digits: \<open>match\<close> with a wildcard on both sides then finds it anywhere inside
  a word of the title or of the name, whatever the case.
\<close>

record mem =
  mem_docs :: "document list"
  mem_clock :: nat

definition mem_now :: "mem \<Rightarrow> nat \<times> mem" where
  "mem_now w = (mem_clock w, w\<lparr>mem_clock := mem_clock w + 1\<rparr>)"

definition probe_matches :: "string \<Rightarrow> string \<Rightarrow> (string \<times> string) list \<Rightarrow> document \<Rightarrow> bool" where
  "probe_matches field q params d =
     (if map_of params ''id'' = Some (doc_id d) then False
      else (case map_of params ''slug'' of
              None \<Rightarrow> False
            | Some slug \<Rightarrow>
                if current_of (get_prop d field) = JStr slug
                then q = probe_query (doc_type d) field
                else False))"

definition mem_fetch_first ::
  "string \<Rightarrow> string \<Rightarrow> (string \<times> string) list \<Rightarrow> mem \<Rightarrow> (thrown + document option) \<times> mem" where
  "mem_fetch_first field q params w = (Inr (find (probe_matches field q params) (mem_docs w)), w)"

definition set_slug :: "string \<Rightarrow> string \<Rightarrow> document \<Rightarrow> document" where
  "set_slug field slug d =
     d\<lparr>props := (field, JObj [(''_type'', JStr ''slug''), (''current'', JStr slug)]) #
                 filter (\<lambda>kv. fst kv \<noteq> field) (props d)\<rparr>"

definition mem_patch_commit :: "string \<Rightarrow> string \<Rightarrow> string \<Rightarrow> mem \<Rightarrow> (thrown + unit) \<times> mem" where
  "mem_patch_commit ident field slug w =
     (if ident \<in> set (map doc_id (mem_docs w))
      then (Inr (), w\<lparr>mem_docs := map (\<lambda>d. if doc_id d = ident then set_slug field slug d else d)
                                      (mem_docs w)\<rparr>)
      else (Inl (Err ''document not found''), w))"

definition project :: "string \<Rightarrow> document \<Rightarrow> document" where
  "project field d = d\<lparr>props := filter (\<lambda>kv. fst kv \<in> {''title'', ''name'', field}) (props d)\<rparr>"

fun occurs_in :: "string \<Rightarrow> string \<Rightarrow> bool" where
  "occurs_in sub [] = (sub = [])"
| "occurs_in sub (c # cs) = (if take (length sub) (c # cs) = sub then True else occurs_in sub cs)"

definition matches_term :: "string \<Rightarrow> jsval \<Rightarrow> bool" where
  "matches_term needle v =
     (case v of JStr s \<Rightarrow> occurs_in (toLowerCase needle) (toLowerCase s) | _ \<Rightarrow> False)"

definition scan_matches :: "config \<Rightarrow> document \<Rightarrow> bool" where
  "scan_matches cfg d =
     ((selectedType cfg = [] \<or> doc_type d = selectedType cfg) \<and>
      (searchQuery cfg = [] \<or> matches_term (searchQuery cfg) (attribute d ''title'') \<or>
       matches_term (searchQuery cfg) (attribute d ''name'')))"

definition mem_fetch_docs :: "config \<Rightarrow> string \<Rightarrow> mem \<Rightarrow> (thrown + document list) \<times> mem" where
  "mem_fetch_docs cfg q w =
     (if q = ''*'' then (Inr (mem_docs w), w)
      else if q = structured_query cfg \<and>
              list_all (\<lambda>c. is_lower c \<or> is_upper c \<or> is_digit c) (searchQuery cfg) then
        (Inr (map (project (slugField cfg))
                (take (maxDocuments cfg) (filter (scan_matches cfg) (mem_docs w)))), w)
      else (Inl (Err ''query not supported''), w))"

definition mem_client :: "config \<Rightarrow> mem client" where
  "mem_client cfg =
     \<lparr>fetch_docs = mem_fetch_docs cfg,
      fetch_first = mem_fetch_first (slugField cfg),
      patch_commit = mem_patch_commit\<rparr>"

text \<open>The same client with the network failing on the probe for one identifier.\<close>

definition failing_probe :: "string \<Rightarrow> 'w client \<Rightarrow> 'w client" where
  "failing_probe ident cl =
     cl\<lparr>fetch_first := \<lambda>q params w.
           if map_of params ''id'' = Some ident then (Inl (Err ''Network error''), w)
           else fetch_first cl q params w\<rparr>"

text \<open>Sample data.\<close>

definition default_config :: config where
  "default_config =
     \<lparr>selectedType = [], searchQuery = [], useCustomQuery = False, customGroqQuery = [],
      slugField = ''slug'', sourceField = ''title'', slugPrefix = [], slugSuffix = [],
      replaceExisting = False, batchSize = 10, dryRun = False, maxDocuments = 1000\<rparr>"

definition titled :: "string \<Rightarrow> string \<Rightarrow> document" where
  "titled ident title = \<lparr>doc_id = ident, doc_type = ''post'', props = [(''title'', JStr title)]\<rparr>"

definition slugged :: "string \<Rightarrow> string \<Rightarrow> string \<Rightarrow> document" where
  "slugged ident title slug =
     \<lparr>doc_id = ident, doc_type = ''post'',
      props = [(''title'', JStr title), (''slug'', JObj [(''_type'', JStr ''slug''), (''current'', JStr slug)])]\<rparr>"

definition fresh_app :: "'w \<Rightarrow> 'w app" where
  "fresh_app w =
     \<lparr>documents = [], documentsToConvert = [], messages = [], isLoading = False,
      isScanning = False, onComplete_calls = [], onError_calls = [], calls = [], world = w\<rparr>"

definition app_with :: "document list \<Rightarrow> mem app" where
  "app_with docs =
     (fresh_app \<lparr>mem_docs = docs, mem_clock = 1700\<rparr>)\<lparr>documents := docs, documentsToConvert := docs\<rparr>"

definition two_posts :: "document list" where
  "two_posts = [titled ''a'' ''Post'', titled ''b'' ''Post!'']"

definition numbered_docs :: "nat \<Rightarrow> document list" where
  "numbered_docs n = map (\<lambda>k. titled (''doc'' @ show_nat k) (''Title '' @ show_nat k)) [0..<n]"

definition taken_posts :: "document list" where
  "taken_posts = [slugged ''x'' ''Other'' ''post'', titled ''a'' ''Post'']"


definition store_of :: "document list \<Rightarrow> mem" where
  "store_of docs = \<lparr>mem_docs = docs, mem_clock = 1700\<rparr>"

definition three_posts :: "document list" where
  "three_posts = [titled ''a'' ''Post'', titled ''b'' ''Second'', titled ''c'' ''Third'']"


definition greeting_docs :: "document list" where
  "greeting_docs =
     [titled ''a'' ''Say Hello'', titled ''b'' ''Other'',
      \<lparr>doc_id = ''c'', doc_type = ''page'', props = [(''title'', JStr ''Hello page'')]\<rparr>]"

section \<open>Characters and runs of hyphens\<close>

lemma code_unit_char_of: "code_unit (char_of n) = n mod 256"
  by (simp add: code_unit_def)

lemma not_upper_lower_char: "\<not> is_upper (lower_char c)"
  by (auto simp: lower_char_def is_upper_def code_unit_char_of)

lemma lower_char_slug: "is_slug_char c \<Longrightarrow> lower_char c = c"
  by (auto simp: lower_char_def is_slug_char_def is_upper_def is_lower_def is_digit_def is_hyphen_def code_unit_def)

lemma slug_char_not_space: "is_slug_char c \<Longrightarrow> \<not> is_space c"
  by (auto simp: is_slug_char_def is_space_def is_lower_def is_digit_def is_hyphen_def code_unit_def)

lemma slug_char_kept: "is_slug_char c \<Longrightarrow> kept c"
  by (auto simp: is_slug_char_def kept_def is_word_def)

lemma slug_char_sep: "is_slug_char c \<Longrightarrow> is_sep c \<Longrightarrow> is_hyphen c"
  by (auto simp: is_slug_char_def is_sep_def is_space_def is_lower_def is_digit_def is_hyphen_def code_unit_def)

lemma hyphen_sep: "is_hyphen c \<Longrightarrow> is_sep c"
  by (simp add: is_sep_def)

lemma kept_not_sep: "kept c \<Longrightarrow> \<not> is_upper c \<Longrightarrow> \<not> is_sep c \<Longrightarrow> is_slug_char c"
  by (auto simp: kept_def is_word_def is_sep_def is_slug_char_def)

lemma hyphen_slug_char: "is_hyphen c \<Longrightarrow> is_slug_char c"
  by (simp add: is_slug_char_def)

lemma single_hyphens_Cons:
  "single_hyphens (a # xs) = ((xs = [] \<or> \<not> (is_hyphen a \<and> is_hyphen (hd xs))) \<and> single_hyphens xs)"
  by (cases xs) auto

lemma single_hyphens_append:
  "single_hyphens (xs @ ys) =
     (single_hyphens xs \<and> single_hyphens ys \<and>
      (xs = [] \<or> ys = [] \<or> \<not> (is_hyphen (last xs) \<and> is_hyphen (hd ys))))"
  by (induction xs) (auto simp: single_hyphens_Cons)

lemma drop_trailing_prefix: "drop_trailing P s @ rev (takeWhile P (rev s)) = s"
proof -
  have "rev (takeWhile P (rev s) @ dropWhile P (rev s)) = s"
    by simp
  then show ?thesis
    unfolding drop_trailing_def by (simp only: rev_append)
qed

lemma set_drop_trailing: "set (drop_trailing P s) \<subseteq> set s"
  by (auto simp: drop_trailing_def dest: set_dropWhileD)

lemma single_hyphens_dropWhile: "single_hyphens s \<Longrightarrow> single_hyphens (dropWhile P s)"
  using single_hyphens_append [of "takeWhile P s" "dropWhile P s"] by simp

lemma single_hyphens_drop_trailing: "single_hyphens s \<Longrightarrow> single_hyphens (drop_trailing P s)"
  using single_hyphens_append [of "drop_trailing P s" "rev (takeWhile P (rev s))"]
  by (simp add: drop_trailing_prefix)

lemma drop_trailing_last: "drop_trailing P s \<noteq> [] \<Longrightarrow> \<not> P (last (drop_trailing P s))"
  unfolding drop_trailing_def using hd_dropWhile [of P "rev s"]
  by (simp add: last_rev)

lemma drop_trailing_hd: "drop_trailing P s \<noteq> [] \<Longrightarrow> hd (drop_trailing P s) = hd s"
  using drop_trailing_prefix [of P s] by (metis hd_append2)

lemma drop_trailing_id: "s = [] \<or> \<not> P (last s) \<Longrightarrow> drop_trailing P s = s"
  unfolding drop_trailing_def by (cases "rev s") (auto simp: last_rev [symmetric] dest: arg_cong [where f = rev])

lemma set_hyphenate: "c \<in> set (hyphenate s) \<Longrightarrow> is_hyphen c \<or> (c \<in> set s \<and> \<not> is_sep c)"
  by (induction s rule: hyphenate.induct) (auto simp: is_hyphen_def split: if_splits dest: set_dropWhileD)

lemma hd_hyphenate: "s \<noteq> [] \<Longrightarrow> \<not> is_sep (hd s) \<Longrightarrow> hd (hyphenate s) = hd s"
  by (cases s) auto

lemma hyphenate_Nil_iff: "hyphenate s = [] \<longleftrightarrow> s = []"
  by (cases s) auto

lemma single_hyphens_hyphenate: "single_hyphens (hyphenate s)"
proof (induction s rule: hyphenate.induct)
  case 1
  show ?case by simp
next
  case (2 c cs)
  show ?case
  proof (cases "is_sep c")
    case True
    let ?r = "dropWhile is_sep cs"
    have "?r = [] \<or> \<not> is_hyphen (hd (hyphenate ?r))"
    proof (cases "?r = []")
      case False
      then have "\<not> is_sep (hd ?r)" by (rule hd_dropWhile)
      with False show ?thesis by (auto simp: hd_hyphenate dest: hyphen_sep)
    qed simp
    with True 2 show ?thesis
      by (auto simp: single_hyphens_Cons hyphenate_Nil_iff)
  next
    case False
    then have "\<not> is_hyphen c" by (auto dest: hyphen_sep)
    with False 2 show ?thesis
      by (simp add: single_hyphens_Cons)
  qed
qed

lemma hyphenate_id: "list_all is_slug_char s \<Longrightarrow> single_hyphens s \<Longrightarrow> hyphenate s = s"
proof (induction s)
  case Nil
  show ?case by simp
next
  case (Cons c cs)
  then have ih: "hyphenate cs = cs"
    by (simp add: single_hyphens_Cons)
  show ?case
  proof (cases "is_sep c")
    case False
    with ih show ?thesis by simp
  next
    case True
    with Cons.prems have hc: "is_hyphen c" by (auto dest: slug_char_sep)
    have "dropWhile is_sep cs = cs"
    proof (cases cs)
      case (Cons d ds)
      with Cons.prems hc have "is_slug_char d" "\<not> is_hyphen d" by auto
      then have "\<not> is_sep d" by (auto dest: slug_char_sep)
      with Cons show ?thesis by simp
    qed simp
    with True hc ih show ?thesis by (simp add: is_hyphen_def)
  qed
qed

lemma base_slug_chars: "list_all is_slug_char (base_slug t)"
proof -
  let ?u = "remove_special (trim (toLowerCase t))"
  have u: "kept c \<and> \<not> is_upper c" if "c \<in> set ?u" for c
  proof -
    from that have "kept c" and "c \<in> set (trim (toLowerCase t))"
      by (auto simp: remove_special_def)
    moreover from this(2) have "c \<in> set (toLowerCase t)"
      unfolding trim_def using set_drop_trailing by (blast dest: set_dropWhileD)
    ultimately show ?thesis
      by (auto simp: toLowerCase_def not_upper_lower_char)
  qed
  have "is_slug_char c" if "c \<in> set (hyphenate ?u)" for c
    using set_hyphenate [OF that] u by (auto intro: kept_not_sep hyphen_slug_char)
  moreover have "set (base_slug t) \<subseteq> set (hyphenate ?u)"
    unfolding base_slug_def strip_hyphens_def using set_drop_trailing by (blast dest: set_dropWhileD)
  ultimately show ?thesis
    by (auto simp: list_all_iff)
qed

lemma strip_hyphens_ends:
  "strip_hyphens s = [] \<or> \<not> is_hyphen (hd (strip_hyphens s)) \<and> \<not> is_hyphen (last (strip_hyphens s))"
proof (cases "strip_hyphens s = []")
  case False
  let ?u = "dropWhile is_hyphen s"
  have ne: "?u \<noteq> []"
  proof
    assume "?u = []"
    then have "strip_hyphens s = []"
      unfolding strip_hyphens_def drop_trailing_def by (simp only: rev.simps dropWhile.simps)
    with False show False by simp
  qed
  then have "\<not> is_hyphen (hd ?u)" by (rule hd_dropWhile)
  with False show ?thesis
    unfolding strip_hyphens_def by (simp add: drop_trailing_hd drop_trailing_last)
qed simp

lemma clean_base_slug: "clean_slug (base_slug t)"
  unfolding clean_slug_def using base_slug_chars [of t] strip_hyphens_ends
  by (simp add: base_slug_def strip_hyphens_def single_hyphens_hyphenate
      single_hyphens_dropWhile single_hyphens_drop_trailing)

lemma base_slug_clean_id:
  assumes "clean_slug s"
  shows "base_slug s = s"
proof -
  from assms have chars: "list_all is_slug_char s" and single: "single_hyphens s"
    and ends: "s = [] \<or> \<not> is_hyphen (hd s) \<and> \<not> is_hyphen (last s)"
    by (auto simp: clean_slug_def)
  have lower: "toLowerCase s = s"
    unfolding toLowerCase_def using chars by (auto simp: list_all_iff lower_char_slug intro: map_idI)
  have sp: "s = [] \<or> \<not> is_space (hd s) \<and> \<not> is_space (last s)"
    using chars by (cases "s = []") (auto simp: list_all_iff dest!: slug_char_not_space)
  then have "dropWhile is_space s = s"
    by (auto simp: dropWhile_eq_self_iff)
  moreover from sp have "drop_trailing is_space s = s"
    by (intro drop_trailing_id) auto
  ultimately have tr: "trim s = s"
    by (simp add: trim_def)
  have rm: "remove_special s = s"
    unfolding remove_special_def using chars by (auto simp: list_all_iff slug_char_kept)
  have hy: "hyphenate s = s"
    using chars single by (rule hyphenate_id)
  from ends have "dropWhile is_hyphen s = s"
    by (auto simp: dropWhile_eq_self_iff)
  moreover from ends have "drop_trailing is_hyphen s = s"
    by (intro drop_trailing_id) auto
  ultimately have "strip_hyphens s = s"
    by (simp add: strip_hyphens_def)
  with lower tr rm hy show ?thesis
    by (simp add: base_slug_def)
qed

lemma clean_slug_join:
  assumes "clean_slug a" "clean_slug b" "a \<noteq> []" "b \<noteq> []"
  shows "clean_slug (a @ CHR ''-'' # b)"
  using assms
  by (auto simp: clean_slug_def single_hyphens_append single_hyphens_Cons is_slug_char_def is_hyphen_def)

section \<open>Claims about the slug generator\<close>

text \<open>
  C1 (as amended). The claim as written fails: the prefix and the suffix are
  glued on as they are, so a prefix such as \<open>My Blog\<close> puts capitals and a space
  into the result, and when the text normalises to nothing a prefix leaves a
  trailing hyphen. What holds: for every input text, the returned string has only
  lowercase letters, digits and single hyphens, with no hyphen at either end,
  whenever the configured prefix and suffix are themselves such strings (the
  empty string included) and, if one of them is configured, the text is empty or
  normalises to a non-empty base. In particular it holds for every text when no
  prefix and no suffix are configured.
\<close>

theorem generateSlug_clean:
  assumes "clean_slug p" and "clean_slug q"
    and "text = [] \<or> base_slug text \<noteq> [] \<or> (p = [] \<and> q = [])"
  shows "clean_slug (generateSlug p q text)"
proof (cases "text = []")
  case True
  then show ?thesis by (simp add: generateSlug_def clean_slug_def)
next
  case False
  note b = clean_base_slug [of "text"]
  show ?thesis
  proof (cases "base_slug text = []")
    case True
    with False assms(3) b show ?thesis by (simp add: generateSlug_def Let_def)
  next
    case ne: False
    have suf: "clean_slug (base_slug text @ CHR ''-'' # q)" if "q \<noteq> []"
      using b assms(2) ne that by (rule clean_slug_join)
    have "clean_slug (p @ CHR ''-'' # base_slug text)" if "p \<noteq> []"
      using assms(1) b that ne by (rule clean_slug_join)
    moreover have "clean_slug (p @ CHR ''-'' # base_slug text @ CHR ''-'' # q)"
      if "p \<noteq> []" "q \<noteq> []"
      using assms(1) suf [OF that(2)] that(1) by (rule clean_slug_join) simp
    ultimately show ?thesis
      using False b suf by (simp add: generateSlug_def Let_def)
  qed
qed

theorem generateSlug_clean_witness:
  "clean_slug ''blog'' \<and> clean_slug ''v2'' \<and>
   (''Hello, World!'' = [] \<or> base_slug ''Hello, World!'' \<noteq> [] \<or> (''blog'' = [] \<and> ''v2'' = [])) \<and>
   clean_slug (generateSlug ''blog'' ''v2'' ''Hello, World!'') \<and>
   generateSlug ''blog'' ''v2'' ''Hello, World!'' = ''blog-hello-world-v2''"
proof -
  have p: "clean_slug ''blog''" and q: "clean_slug ''v2''" by code_simp+
  have b: "''Hello, World!'' = [] \<or> base_slug ''Hello, World!'' \<noteq> [] \<or> (''blog'' = [] \<and> ''v2'' = [])"
    by code_simp
  have v: "generateSlug ''blog'' ''v2'' ''Hello, World!'' = ''blog-hello-world-v2''"
    by code_simp
  from generateSlug_clean [OF p q b] p q b v show ?thesis by blast
qed

text \<open>
  C1 (as written) is false: with the prefix \<open>My Blog\<close> the slug of \<open>Title\<close> is
  \<open>My Blog-title\<close>.
\<close>

theorem generateSlug_prefix_not_clean:
  "\<not> clean_slug (generateSlug ''My Blog'' [] ''Title'')"
  by code_simp

text \<open>
  C8 (as amended). With no prefix and no suffix configured, the generator applied
  to its own output returns that output, for every input text.
\<close>

theorem generateSlug_idempotent_no_affix:
  "generateSlug [] [] (generateSlug [] [] text) = generateSlug [] [] text"
  using base_slug_clean_id [OF clean_base_slug, of "text"]
  by (simp add: generateSlug_def Let_def)

text \<open>
  C8 (as written) is false under a configured prefix: the prefix is put in front
  again, \<open>blog-title\<close> becomes \<open>blog-blog-title\<close>.
\<close>

theorem generateSlug_prefix_not_idempotent:
  "generateSlug ''blog'' [] (generateSlug ''blog'' [] ''Title'') \<noteq> generateSlug ''blog'' [] ''Title''"
  by code_simp

section \<open>The loop over the candidates\<close>

lemma process_doc_messages_update:
  "process_doc dn cl cfg d (r, messages_update f s) =
   apsnd (messages_update f) (process_doc dn cl cfg d (r, s))"
  by (simp add: process_doc_def Let_def split: sum.splits prod.splits)

lemma fold_process_doc_messages_update:
  "fold (process_doc dn cl cfg) ds (r, messages_update f s) =
   apsnd (messages_update f) (fold (process_doc dn cl cfg) ds (r, s))"
proof (induction ds arbitrary: r s)
  case Nil
  show ?case by simp
next
  case (Cons d ds)
  obtain r' s' where step: "process_doc dn cl cfg d (r, s) = (r', s')"
    by (cases "process_doc dn cl cfg d (r, s)")
  then show ?case
    by (simp add: process_doc_messages_update Cons.IH)
qed

lemma process_doc_frame: "same_frame s (snd (process_doc dn cl cfg d (r, s)))"
  by (simp add: process_doc_def same_frame_def Let_def split: sum.splits prod.splits)

lemma fold_process_doc_frame: "same_frame s (snd (fold (process_doc dn cl cfg) ds (r, s)))"
proof (induction ds arbitrary: r s)
  case Nil
  show ?case by (simp add: same_frame_def)
next
  case (Cons d ds)
  obtain r' s' where step: "process_doc dn cl cfg d (r, s) = (r', s')"
    by (cases "process_doc dn cl cfg d (r, s)")
  have "same_frame s s'"
    using process_doc_frame [where s = s and r = r and dn = dn and cl = cl and cfg = cfg and d = d]
    by (simp add: step)
  moreover have "same_frame s' (snd (fold (process_doc dn cl cfg) ds (r', s')))"
    by (rule Cons.IH)
  ultimately show ?case
    using step by (simp add: same_frame_def)
qed

lemma batch_loop_step:
  "i < length docs \<Longrightarrow>
   batch_loop dn cl cfg docs i st =
   batch_loop dn cl cfg docs (i + batchSize cfg)
     (fst (fold (process_doc dn cl cfg) (slice docs i (i + batchSize cfg)) st),
      setMessage (progress_message cfg
          (converted (fst (fold (process_doc dn cl cfg) (slice docs i (i + batchSize cfg)) st)))
          (length docs))
        (snd (fold (process_doc dn cl cfg) (slice docs i (i + batchSize cfg)) st)))"
  by (subst batch_loop.simps) (simp add: Let_def)

lemma batch_loop_stop: "\<not> i < length docs \<Longrightarrow> batch_loop dn cl cfg docs i st = Some st"
  by (subst batch_loop.simps) simp

lemma batch_loop_stuck:
  assumes "batch_loop dn cl cfg docs i st = Some y"
  shows "\<not> (batchSize cfg = 0 \<and> i < length docs)"
proof (rule batch_loop.raw_induct
    [where P = "\<lambda>dn cl cfg docs i st y. \<not> (batchSize cfg = 0 \<and> i < length docs)", OF _ assms],
    goal_cases)
  case (1 f dn cl cfg docs i st y)
  show ?case
  proof
    assume a: "batchSize cfg = 0 \<and> i < length docs"
    with 1(2) obtain st2 where "f dn cl cfg docs i st2 = Some y"
      by (simp add: Let_def)
    from 1(1) [OF this] a show False by simp
  qed
qed

lemma batch_loop_total:
  assumes "0 < batchSize cfg"
  shows "\<exists>msgs. batch_loop dn cl cfg docs i (r, s) =
     Some (apsnd (messages_update (\<lambda>m. m @ msgs)) (fold (process_doc dn cl cfg) (drop i docs) (r, s)))"
proof (induction "length docs - i" arbitrary: i r s rule: less_induct)
  case less
  show ?case
  proof (cases "i < length docs")
    case False
    then have "batch_loop dn cl cfg docs i (r, s) = Some (r, s)"
      by (rule batch_loop_stop)
    moreover have "apsnd (messages_update (\<lambda>m. m @ [])) (r, s) = (r, s)" by simp
    ultimately show ?thesis using False
      by (intro exI [of _ "[]"]) simp
  next
    case True
    let ?b = "batchSize cfg"
    let ?F = "fold (process_doc dn cl cfg) (slice docs i (i + ?b)) (r, s)"
    let ?pm = "progress_message cfg (converted (fst ?F)) (length docs)"
    from True assms have "length docs - (i + ?b) < length docs - i" by simp
    from less [OF this, of "fst ?F" "setMessage ?pm (snd ?F)"]
    obtain msgs where rec: "batch_loop dn cl cfg docs (i + ?b) (fst ?F, setMessage ?pm (snd ?F)) =
       Some (apsnd (messages_update (\<lambda>m. m @ msgs))
         (fold (process_doc dn cl cfg) (drop (i + ?b) docs) (fst ?F, setMessage ?pm (snd ?F))))"
      by blast
    have sm: "setMessage ?pm (snd ?F) = messages_update (\<lambda>m. m @ [?pm]) (snd ?F)"
      by (simp add: setMessage_def)
    have split: "drop i docs = slice docs i (i + ?b) @ drop (i + ?b) docs"
      by (simp add: slice_def add.commute [of i] drop_drop [symmetric] del: drop_drop)
    have "fold (process_doc dn cl cfg) (drop (i + ?b) docs) (fst ?F, setMessage ?pm (snd ?F)) =
          apsnd (messages_update (\<lambda>m. m @ [?pm])) (fold (process_doc dn cl cfg) (drop i docs) (r, s))"
    proof -
      have "fold (process_doc dn cl cfg) (drop i docs) (r, s) =
            fold (process_doc dn cl cfg) (drop (i + ?b) docs) ?F"
        by (subst split) (simp only: fold_append comp_apply)
      then show ?thesis
        unfolding sm fold_process_doc_messages_update by simp
    qed
    with rec batch_loop_step [OF True, of dn cl cfg "(r, s)"]
    have "batch_loop dn cl cfg docs i (r, s) =
       Some (apsnd (messages_update (\<lambda>m. m @ ?pm # msgs)) (fold (process_doc dn cl cfg) (drop i docs) (r, s)))"
      by (simp add: apsnd_def map_prod_def split_beta comp_def)
    then show ?thesis by blast
  qed
qed

lemma process_doc_converted_slugs:
  "converted r = length (slugsGenerated r) \<Longrightarrow>
   converted (fst (process_doc dn cl cfg d (r, s))) =
   length (slugsGenerated (fst (process_doc dn cl cfg d (r, s))))"
  by (simp add: process_doc_def Let_def record_failure_def record_success_def
      split: sum.splits prod.splits)

lemma fold_process_doc_converted_slugs:
  "converted r = length (slugsGenerated r) \<Longrightarrow>
   converted (fst (fold (process_doc dn cl cfg) ds (r, s))) =
   length (slugsGenerated (fst (fold (process_doc dn cl cfg) ds (r, s))))"
proof (induction ds arbitrary: r s)
  case Nil
  then show ?case by simp
next
  case (Cons d ds)
  obtain r' s' where step: "process_doc dn cl cfg d (r, s) = (r', s')"
    by (cases "process_doc dn cl cfg d (r, s)")
  with process_doc_converted_slugs [OF Cons.prems, of dn cl cfg d s]
  have "converted r' = length (slugsGenerated r')" by simp
  from Cons.IH [OF this] step show ?case by simp
qed

lemma process_doc_outcome_count:
  "converted (fst (process_doc dn cl cfg d (r, s))) + length (errors (fst (process_doc dn cl cfg d (r, s)))) =
   Suc (converted r + length (errors r))"
  by (simp add: process_doc_def Let_def record_failure_def record_success_def
      split: sum.splits prod.splits)

lemma fold_process_doc_outcome_count:
  "converted (fst (fold (process_doc dn cl cfg) ds (r, s))) +
   length (errors (fst (fold (process_doc dn cl cfg) ds (r, s)))) =
   converted r + length (errors r) + length ds"
proof (induction ds arbitrary: r s)
  case Nil
  show ?case by simp
next
  case (Cons d ds)
  obtain r' s' where step: "process_doc dn cl cfg d (r, s) = (r', s')"
    by (cases "process_doc dn cl cfg d (r, s)")
  with process_doc_outcome_count [of dn cl cfg d r s]
  have "converted r' + length (errors r') = Suc (converted r + length (errors r))" by simp
  with Cons.IH [of r' s'] step show ?case by simp
qed

lemma process_doc_errors_grow:
  "\<exists>rest. errors (fst (process_doc dn cl cfg d (r, s))) = errors r @ rest"
  by (simp add: process_doc_def Let_def record_failure_def record_success_def
      split: sum.splits prod.splits)

lemma fold_process_doc_errors_grow:
  "\<exists>rest. errors (fst (fold (process_doc dn cl cfg) ds (r, s))) = errors r @ rest"
proof (induction ds arbitrary: r s)
  case Nil
  show ?case by simp
next
  case (Cons d ds)
  obtain r' s' where step: "process_doc dn cl cfg d (r, s) = (r', s')"
    by (cases "process_doc dn cl cfg d (r, s)")
  with process_doc_errors_grow [of dn cl cfg d r s]
  obtain rest1 where "errors r' = errors r @ rest1" by auto
  moreover from Cons.IH [of r' s'] obtain rest2 where
    "errors (fst (fold (process_doc dn cl cfg) ds (r', s'))) = errors r' @ rest2" by blast
  ultimately show ?case using step by simp
qed

text \<open>The whole run, when the batch size is positive.\<close>

lemma convertToSlugs_total:
  assumes "0 < batchSize cfg" and "documentsToConvert s \<noteq> []"
  shows "\<exists>msgs. convertToSlugs dn (Some cl) cfg s =
     Some ((snd (after_docs dn cl cfg (length (documentsToConvert s)) s))
        \<lparr>messages := messages s @ ''Converting IDs to slugs...'' # msgs,
         onComplete_calls := onComplete_calls s @ [fst (after_docs dn cl cfg (length (documentsToConvert s)) s)],
         isLoading := False\<rparr>)"
proof -
  let ?docs = "documentsToConvert s"
  let ?s1 = "setMessage ''Converting IDs to slugs...'' (s\<lparr>isLoading := True\<rparr>)"
  let ?F = "fold (process_doc dn cl cfg) ?docs (start_result, ?s1)"
  have F: "after_docs dn cl cfg (length ?docs) s = ?F"
    by (simp add: after_docs_def start_state_def)
  from batch_loop_total [OF assms(1), of dn cl ?docs 0 start_result ?s1]
  obtain msgs where loop: "batch_loop dn cl cfg ?docs 0 (start_result, ?s1) =
      Some (apsnd (messages_update (\<lambda>m. m @ msgs)) ?F)"
    by auto
  have frame: "same_frame ?s1 (snd ?F)"
    by (rule fold_process_doc_frame)
  let ?done = "complete_message cfg (converted (fst ?F))"
  have "convertToSlugs dn (Some cl) cfg s =
     Some ((snd ?F)\<lparr>messages := messages s @ ''Converting IDs to slugs...'' # (msgs @ [?done]),
         onComplete_calls := onComplete_calls s @ [fst ?F], isLoading := False\<rparr>)"
    using assms(2) loop frame
    by (simp add: convertToSlugs_def start_result_def setMessage_def same_frame_def
        apsnd_def map_prod_def split_beta)
  with F show ?thesis by auto
qed

lemma convertToSlugs_stuck:
  assumes "batchSize cfg = 0" and "documentsToConvert s \<noteq> []"
  shows "convertToSlugs dn (Some cl) cfg s = None"
proof -
  have "batch_loop dn cl cfg (documentsToConvert s) 0 st \<noteq> Some y" for st y
    using batch_loop_stuck [of dn cl cfg "documentsToConvert s" 0 st y] assms by auto
  then have "batch_loop dn cl cfg (documentsToConvert s) 0 st = None" for st
    by (cases "batch_loop dn cl cfg (documentsToConvert s) 0 st") auto
  with assms(2) show ?thesis
    by (simp add: convertToSlugs_def)
qed

section \<open>Claims about the conversion pipeline\<close>

text \<open>
  C9. Whenever a run returns, it has either made no report (no client, or no
  candidates) or handed exactly one report to the completion callback, and in
  that report the converted count equals the length of \<open>slugsGenerated\<close>: the
  counter is incremented exactly when a slug is appended.
\<close>

theorem report_counts_its_slugs:
  assumes "convertToSlugs dn client cfg s = Some s'"
  shows "onComplete_calls s' = onComplete_calls s \<or>
     (\<exists>r. onComplete_calls s' = onComplete_calls s @ [r] \<and> converted r = length (slugsGenerated r))"
proof (cases client)
  case None
  with assms show ?thesis by (simp add: convertToSlugs_def)
next
  case (Some cl)
  show ?thesis
  proof (cases "documentsToConvert s = []")
    case True
    with assms Some show ?thesis by (simp add: convertToSlugs_def)
  next
    case False
    with assms Some convertToSlugs_stuck [of cfg s dn cl] have "0 < batchSize cfg"
      by (cases "batchSize cfg") auto
    from convertToSlugs_total [OF this False, of dn cl] assms Some
    have "onComplete_calls s' =
       onComplete_calls s @ [fst (after_docs dn cl cfg (length (documentsToConvert s)) s)]"
      by auto
    moreover have "converted (fst (after_docs dn cl cfg (length (documentsToConvert s)) s)) =
       length (slugsGenerated (fst (after_docs dn cl cfg (length (documentsToConvert s)) s)))"
      unfolding after_docs_def start_state_def
      by (rule fold_process_doc_converted_slugs) (simp add: start_result_def)
    ultimately show ?thesis by blast
  qed
qed

theorem report_counts_its_slugs_witness:
  "\<exists>s'. convertToSlugs mem_now (Some (mem_client default_config)) default_config (app_with two_posts) = Some s' \<and>
     onComplete_calls s' = [\<lparr>converted = 2, errors = [], slugsGenerated = [''post'', ''post-1700'']\<rparr>] \<and>
     (onComplete_calls s' = onComplete_calls (app_with two_posts) \<or>
      (\<exists>r. onComplete_calls s' = onComplete_calls (app_with two_posts) @ [r] \<and>
           converted r = length (slugsGenerated r)))"
proof -
  have "map_option onComplete_calls
          (convertToSlugs mem_now (Some (mem_client default_config)) default_config (app_with two_posts)) =
        Some [\<lparr>converted = 2, errors = [], slugsGenerated = [''post'', ''post-1700'']\<rparr>]"
    by code_simp
  then obtain s' where
    run: "convertToSlugs mem_now (Some (mem_client default_config)) default_config (app_with two_posts) = Some s'"
    and rep: "onComplete_calls s' = [\<lparr>converted = 2, errors = [], slugsGenerated = [''post'', ''post-1700'']\<rparr>]"
    by auto
  from report_counts_its_slugs [OF run] run rep show ?thesis by blast
qed

lemma process_doc_store_throws:
  assumes "generateSlug_of cfg (resolve_source cfg d) = Inr newSlug" and "newSlug \<noteq> []"
    and "store_throws dn cl cfg d newSlug (world s) = Some e"
  shows "fst (process_doc dn cl cfg d (r, s)) = record_failure d e r"
  using assms
  by (auto simp: process_doc_def store_throws_def Let_def split: sum.splits prod.splits if_splits)

text \<open>
  C3. Take any candidate list, any document \<open>doc\<close> in it and any client. If, when
  the turn of \<open>doc\<close> comes, the probe for a collision throws, or the probe returns
  and the commit of the patch throws, then the run still returns: it hands one
  report to the completion callback and nothing to the error callback, the
  report's error list holds \<open>Failed to convert <id>: <message>\<close> for \<open>doc\<close> right
  after the errors of the documents before it, and every candidate has got
  exactly one outcome (converted plus errors is the number of candidates), so
  the documents after \<open>doc\<close> were processed too. The batch size is positive; with
  a batch size of 0 the loop does not advance and nothing is ever processed.
\<close>

theorem store_failure_is_recorded:
  assumes bs: "0 < batchSize cfg"
    and docs: "documentsToConvert s = before @ doc # later"
    and slug: "generateSlug_of cfg (resolve_source cfg doc) = Inr newSlug" "newSlug \<noteq> []"
    and throws: "store_throws dn cl cfg doc newSlug
                   (world (snd (after_docs dn cl cfg (length before) s))) = Some e"
  shows "\<exists>s' r rest.
     convertToSlugs dn (Some cl) cfg s = Some s' \<and>
     onError_calls s' = onError_calls s \<and>
     onComplete_calls s' = onComplete_calls s @ [r] \<and>
     errors r = errors (fst (after_docs dn cl cfg (length before) s)) @
                (''Failed to convert '' @ doc_id doc @ '': '' @ error_message ''Conversion failed'' e) # rest \<and>
     converted r + length (errors r) = length (documentsToConvert s)"
proof -
  let ?n = "length (documentsToConvert s)"
  let ?P = "process_doc dn cl cfg"
  let ?A = "after_docs dn cl cfg (length before) s"
  let ?F = "after_docs dn cl cfg ?n s"
  from docs have ne: "documentsToConvert s \<noteq> []" by simp
  from convertToSlugs_total [OF bs ne, of dn cl] obtain s' msgs where
    run: "convertToSlugs dn (Some cl) cfg s = Some s'"
    and s': "s' = (snd ?F)\<lparr>messages := messages s @ ''Converting IDs to slugs...'' # msgs,
         onComplete_calls := onComplete_calls s @ [fst ?F], isLoading := False\<rparr>"
    by blast
  have "same_frame (snd (start_state s)) (snd ?F)"
    unfolding after_docs_def start_state_def snd_conv by (rule fold_process_doc_frame)
  with s' have onerr: "onError_calls s' = onError_calls s"
    by (simp add: same_frame_def start_state_def setMessage_def)
  from s' have rep: "onComplete_calls s' = onComplete_calls s @ [fst ?F]" by simp
  have A: "?A = fold ?P before (start_state s)"
    by (simp add: after_docs_def docs)
  have F: "?F = fold ?P later (?P doc ?A)"
    by (simp add: after_docs_def docs A)
  obtain r1 t1 where A1: "?A = (r1, t1)" by (cases ?A)
  obtain r2 t2 where step: "?P doc (r1, t1) = (r2, t2)" by (cases "?P doc (r1, t1)")
  from throws A1 have "store_throws dn cl cfg doc newSlug (world t1) = Some e" by simp
  from process_doc_store_throws [OF slug this, of r1] step
  have r2: "r2 = record_failure doc e r1" by simp
  from fold_process_doc_errors_grow [of dn cl cfg later r2 t2] F A1 step
  obtain rest where "errors (fst ?F) = errors r2 @ rest" by auto
  with r2 A1 have errs: "errors (fst ?F) = errors (fst ?A) @
      (''Failed to convert '' @ doc_id doc @ '': '' @ error_message ''Conversion failed'' e) # rest"
    by (simp add: record_failure_def)
  have count: "converted (fst ?F) + length (errors (fst ?F)) = ?n"
    unfolding after_docs_def start_state_def
    by (simp add: fold_process_doc_outcome_count start_result_def)
  from run onerr rep errs count show ?thesis by blast
qed

theorem store_failure_is_recorded_witness:
  "\<exists>s'. convertToSlugs mem_now (Some (failing_probe ''b'' (mem_client default_config))) default_config
           (app_with three_posts) = Some s' \<and>
        onError_calls s' = [] \<and>
        onComplete_calls s' =
          [\<lparr>converted = 2, errors = [''Failed to convert b: Network error''],
            slugsGenerated = [''post'', ''third'']\<rparr>]"
proof -
  let ?cl = "failing_probe ''b'' (mem_client default_config)"
  let ?s = "app_with three_posts"
  have bs: "0 < batchSize default_config" by code_simp
  have docs: "documentsToConvert ?s =
      [titled ''a'' ''Post''] @ titled ''b'' ''Second'' # [titled ''c'' ''Third'']"
    by code_simp
  have slug: "generateSlug_of default_config (resolve_source default_config (titled ''b'' ''Second'')) =
      Inr ''second''"
    by code_simp
  have ne: "''second'' \<noteq> []" by simp
  have throws: "store_throws mem_now ?cl default_config (titled ''b'' ''Second'') ''second''
      (world (snd (after_docs mem_now ?cl default_config (length [titled ''a'' ''Post'']) ?s))) =
      Some (Err ''Network error'')"
    by code_simp
  from store_failure_is_recorded [OF bs docs slug ne throws]
  obtain s' r rest where run: "convertToSlugs mem_now (Some ?cl) default_config ?s = Some s'"
    and "onError_calls s' = onError_calls ?s" by blast
  moreover have "map_option onComplete_calls (convertToSlugs mem_now (Some ?cl) default_config ?s) =
      Some [\<lparr>converted = 2, errors = [''Failed to convert b: Network error''],
             slugsGenerated = [''post'', ''third'']\<rparr>]"
    by code_simp
  moreover have "onError_calls ?s = []" by code_simp
  ultimately show ?thesis by auto
qed

lemma generateSlug_of_dryRun [simp]:
  "generateSlug_of (cfg\<lparr>dryRun := b\<rparr>) v = generateSlug_of cfg v"
  by (cases v) simp_all

lemma resolve_source_dryRun [simp]:
  "resolve_source (cfg\<lparr>dryRun := b\<rparr>) d = resolve_source cfg d"
  by (simp add: resolve_source_def)

lemma process_doc_dry_inert:
  assumes "dryRun cfg" and "world s = world t"
  shows "fst (process_doc dn cl cfg d (r, s)) =
         fst (process_doc dn (inert_commit cl) (cfg\<lparr>dryRun := False\<rparr>) d (r, t)) \<and>
         world (snd (process_doc dn cl cfg d (r, s))) =
         world (snd (process_doc dn (inert_commit cl) (cfg\<lparr>dryRun := False\<rparr>) d (r, t)))"
  using assms
  by (simp add: process_doc_def inert_commit_def Let_def split: sum.splits prod.splits)

lemma fold_process_doc_dry_inert:
  assumes "dryRun cfg" and "world s = world t"
  shows "fst (fold (process_doc dn cl cfg) ds (r, s)) =
         fst (fold (process_doc dn (inert_commit cl) (cfg\<lparr>dryRun := False\<rparr>)) ds (r, t)) \<and>
         world (snd (fold (process_doc dn cl cfg) ds (r, s))) =
         world (snd (fold (process_doc dn (inert_commit cl) (cfg\<lparr>dryRun := False\<rparr>)) ds (r, t)))"
  using assms(2)
proof (induction ds arbitrary: r s t)
  case Nil
  then show ?case by simp
next
  case (Cons d ds)
  obtain r1 s1 where a: "process_doc dn cl cfg d (r, s) = (r1, s1)"
    by (cases "process_doc dn cl cfg d (r, s)")
  obtain r2 t1 where b: "process_doc dn (inert_commit cl) (cfg\<lparr>dryRun := False\<rparr>) d (r, t) = (r2, t1)"
    by (cases "process_doc dn (inert_commit cl) (cfg\<lparr>dryRun := False\<rparr>) d (r, t)")
  from process_doc_dry_inert [OF assms(1) Cons.prems, of dn cl d r] a b
  have "r1 = r2" and "world s1 = world t1" by simp_all
  with Cons.IH [of s1 t1 r1] a b show ?case by simp
qed

lemma process_doc_dry_no_patch:
  "dryRun cfg \<Longrightarrow> patch_calls (snd (process_doc dn cl cfg d (r, s))) = patch_calls s"
  by (simp add: process_doc_def patch_calls_def is_patch_def Let_def split: sum.splits prod.splits)

lemma fold_process_doc_dry_no_patch:
  "dryRun cfg \<Longrightarrow> patch_calls (snd (fold (process_doc dn cl cfg) ds (r, s))) = patch_calls s"
proof (induction ds arbitrary: r s)
  case Nil
  show ?case by simp
next
  case (Cons d ds)
  obtain r1 s1 where a: "process_doc dn cl cfg d (r, s) = (r1, s1)"
    by (cases "process_doc dn cl cfg d (r, s)")
  with process_doc_dry_no_patch [OF Cons.prems, of dn cl d r s] have "patch_calls s1 = patch_calls s"
    by simp
  with Cons.IH [OF Cons.prems, of r1 s1] a show ?case by simp
qed

lemma process_doc_dry_observed:
  assumes dry: "dryRun cfg"
    and rd: "\<And>q ps w. obs (snd (fetch_first cl q ps w)) = obs w"
    and clk: "\<And>w. obs (snd (dn w)) = obs w"
  shows "obs (world (snd (process_doc dn cl cfg d (r, s)))) = obs (world s)"
proof -
  have fin: "obs (snd (final_slug dn n ex w)) = obs w" for n ex w
    using clk [of w] by (cases ex; cases "dn w") (simp_all add: final_slug_def)
  show ?thesis
  proof (cases "generateSlug_of cfg (resolve_source cfg d)")
    case (Inl e)
    then show ?thesis by (simp add: process_doc_def)
  next
    case (Inr newSlug)
    let ?q = "probe_query (doc_type d) (slugField cfg)"
    let ?ps = "probe_params newSlug (doc_id d)"
    obtain x w1 where f: "fetch_first cl ?q ?ps (world s) = (x, w1)"
      by (cases "fetch_first cl ?q ?ps (world s)")
    with rd [of ?q ?ps "world s"] have w1: "obs w1 = obs (world s)" by simp
    show ?thesis
    proof (cases x)
      case (Inl e)
      with Inr f w1 show ?thesis by (simp add: process_doc_def Let_def)
    next
      case ex: (Inr existingDoc)
      obtain fs w2 where g: "final_slug dn newSlug existingDoc w1 = (fs, w2)"
        by (cases "final_slug dn newSlug existingDoc w1")
      with fin [of newSlug existingDoc w1] w1 have "obs w2 = obs (world s)" by simp
      with Inr f ex g dry show ?thesis by (simp add: process_doc_def Let_def)
    qed
  qed
qed

lemma fold_process_doc_dry_observed:
  assumes dry: "dryRun cfg"
    and rd: "\<And>q ps w. obs (snd (fetch_first cl q ps w)) = obs w"
    and clk: "\<And>w. obs (snd (dn w)) = obs w"
  shows "obs (world (snd (fold (process_doc dn cl cfg) ds (r, s)))) = obs (world s)"
proof (induction ds arbitrary: r s)
  case Nil
  show ?case by simp
next
  case (Cons d ds)
  obtain r1 s1 where a: "process_doc dn cl cfg d (r, s) = (r1, s1)"
    by (cases "process_doc dn cl cfg d (r, s)")
  with process_doc_dry_observed [of cfg obs cl dn d r s, OF dry rd clk]
  have "obs (world s1) = obs (world s)" by simp
  with Cons.IH [of r1 s1] a show ?case by simp
qed

text \<open>
  C4 (as amended). The claim as written fails in its second half: a real run
  writes, and what it has written (or failed to write) changes what it reports;
  a dry run probes the store as it was. What holds, for every candidate list,
  client and positive batch size: a dry run returns, makes no patch-commit call,
  leaves unchanged every observation of the world that reads and the clock leave
  unchanged (the store's contents, for one), and its report is the one a real
  run would give against a client whose commits always succeed and change
  nothing that is read later.
\<close>

theorem dry_run_reports_without_writing:
  assumes dry: "dryRun cfg" and bs: "0 < batchSize cfg"
    and rd: "\<forall>q ps w. obs (snd (fetch_first cl q ps w)) = obs w"
    and clk: "\<forall>w. obs (snd (dn w)) = obs w"
  shows "\<exists>s' s''.
     convertToSlugs dn (Some cl) cfg s = Some s' \<and>
     patch_calls s' = patch_calls s \<and>
     obs (world s') = obs (world s) \<and>
     convertToSlugs dn (Some (inert_commit cl)) (cfg\<lparr>dryRun := False\<rparr>) s = Some s'' \<and>
     onComplete_calls s' = onComplete_calls s''"
proof (cases "documentsToConvert s = []")
  case True
  then show ?thesis by (simp add: convertToSlugs_def)
next
  case False
  let ?n = "length (documentsToConvert s)"
  let ?cfg' = "cfg\<lparr>dryRun := False\<rparr>"
  let ?F = "after_docs dn cl cfg ?n s"
  let ?G = "after_docs dn (inert_commit cl) ?cfg' ?n s"
  from convertToSlugs_total [OF bs False, of dn cl] obtain s' msgs where
    run: "convertToSlugs dn (Some cl) cfg s = Some s'"
    and s': "s' = (snd ?F)\<lparr>messages := messages s @ ''Converting IDs to slugs...'' # msgs,
         onComplete_calls := onComplete_calls s @ [fst ?F], isLoading := False\<rparr>"
    by blast
  from bs have "0 < batchSize ?cfg'" by simp
  from convertToSlugs_total [OF this False, of dn "inert_commit cl"] obtain s'' msgs' where
    run': "convertToSlugs dn (Some (inert_commit cl)) ?cfg' s = Some s''"
    and s'': "s'' = (snd ?G)\<lparr>messages := messages s @ ''Converting IDs to slugs...'' # msgs',
         onComplete_calls := onComplete_calls s @ [fst ?G], isLoading := False\<rparr>"
    by blast
  have "fst ?F = fst ?G"
    unfolding after_docs_def start_state_def
    using fold_process_doc_dry_inert [OF dry refl] by blast
  with s' s'' have rep: "onComplete_calls s' = onComplete_calls s''" by simp
  have "patch_calls (snd ?F) = patch_calls (snd (start_state s))"
    unfolding after_docs_def start_state_def snd_conv
    by (rule fold_process_doc_dry_no_patch [OF dry])
  with s' have np: "patch_calls s' = patch_calls s"
    by (simp add: patch_calls_def start_state_def setMessage_def)
  have "obs (world (snd ?F)) = obs (world (snd (start_state s)))"
    unfolding after_docs_def start_state_def snd_conv
    using dry rd clk by (intro fold_process_doc_dry_observed) auto
  with s' have ob: "obs (world s') = obs (world s)"
    by (simp add: start_state_def setMessage_def)
  from run np ob run' rep show ?thesis by blast
qed

theorem dry_run_reports_without_writing_witness:
  "\<exists>s'. convertToSlugs mem_now (Some (mem_client default_config)) (default_config\<lparr>dryRun := True\<rparr>)
           (app_with two_posts) = Some s' \<and>
        patch_calls s' = [] \<and>
        mem_docs (world s') = two_posts \<and>
        onComplete_calls s' = [\<lparr>converted = 2, errors = [], slugsGenerated = [''post'', ''post'']\<rparr>]"
proof -
  let ?cfg = "default_config\<lparr>dryRun := True\<rparr>"
  let ?cl = "mem_client default_config"
  let ?s = "app_with two_posts"
  have dry: "dryRun ?cfg" by simp
  have bs: "0 < batchSize ?cfg" by (simp add: default_config_def)
  have rd: "\<forall>q ps w. mem_docs (snd (fetch_first ?cl q ps w)) = mem_docs w"
    by (simp add: mem_client_def mem_fetch_first_def)
  have clk: "\<forall>w. mem_docs (snd (mem_now w)) = mem_docs w"
    by (simp add: mem_now_def)
  from dry_run_reports_without_writing [OF dry bs rd clk, of ?s]
  obtain s' where run: "convertToSlugs mem_now (Some ?cl) ?cfg ?s = Some s'"
    and np: "patch_calls s' = patch_calls ?s"
    and ob: "mem_docs (world s') = mem_docs (world ?s)"
    by blast
  have "patch_calls ?s = []" by code_simp
  moreover have "mem_docs (world ?s) = two_posts" by code_simp
  moreover have "map_option onComplete_calls (convertToSlugs mem_now (Some ?cl) ?cfg ?s) =
      Some [\<lparr>converted = 2, errors = [], slugsGenerated = [''post'', ''post'']\<rparr>]"
    by code_simp
  ultimately show ?thesis using run np ob by auto
qed

text \<open>
  C4 (as written) is false: two candidates titled \<open>Post\<close> and \<open>Post!\<close> both
  reduce to \<open>post\<close>. The real run commits \<open>post\<close> for the first, so the probe for
  the second finds it and the report says \<open>post-1700\<close>; the dry run has written
  nothing, its second probe finds nothing, and it reports \<open>post\<close> twice.
\<close>

theorem dry_run_differs_from_real_run:
  "map_option onComplete_calls
     (convertToSlugs mem_now (Some (mem_client default_config)) (default_config\<lparr>dryRun := True\<rparr>)
        (app_with two_posts)) =
   Some [\<lparr>converted = 2, errors = [], slugsGenerated = [''post'', ''post'']\<rparr>] \<and>
   map_option onComplete_calls
     (convertToSlugs mem_now (Some (mem_client default_config)) (default_config\<lparr>dryRun := False\<rparr>)
        (app_with two_posts)) =
   Some [\<lparr>converted = 2, errors = [], slugsGenerated = [''post'', ''post-1700'']\<rparr>]"
  by code_simp

lemma process_doc_calls:
  assumes "generateSlug_of cfg (resolve_source cfg doc) = Inr newSlug" and "newSlug \<noteq> []"
    and "fetch_first cl (probe_query (doc_type doc) (slugField cfg))
           (probe_params newSlug (doc_id doc)) (world s) = (Inr existingDoc, w1)"
  shows "calls (snd (process_doc dn cl cfg doc (r, s))) =
     calls s @ Fetch (probe_query (doc_type doc) (slugField cfg)) (probe_params newSlug (doc_id doc)) #
       (if dryRun cfg then []
        else [PatchCommit (doc_id doc) (slugField cfg) (fst (final_slug dn newSlug existingDoc w1))])"
  using assms
  by (simp add: process_doc_def Let_def split: sum.splits prod.splits)

lemma process_doc_success:
  assumes "generateSlug_of cfg (resolve_source cfg doc) = Inr newSlug" and "newSlug \<noteq> []"
    and "fetch_first cl (probe_query (doc_type doc) (slugField cfg))
           (probe_params newSlug (doc_id doc)) (world s) = (Inr existingDoc, w1)"
    and "store_throws dn cl cfg doc newSlug (world s) = None"
  shows "fst (process_doc dn cl cfg doc (r, s)) =
     record_success (fst (final_slug dn newSlug existingDoc w1)) r"
  using assms
  by (auto simp: process_doc_def store_throws_def Let_def split: sum.splits prod.splits if_splits)

text \<open>
  C5. For every document whose candidate slug \<open>newSlug\<close> is not empty, the pipeline
  sends the store the probe \<open>*[_type == "<type of the document>" &&
  <slugField>.current == $slug && _id != $id][0]\<close> with \<open>$slug\<close> the candidate and
  \<open>$id\<close> the document's identifier. When the probe answers with a document, the
  final slug is the candidate, a hyphen and the clock reading; when it answers
  \<open>null\<close>, the final slug is the candidate. That final slug is what is committed
  (outside a dry run) and, unless the commit throws, what is appended to
  \<open>slugsGenerated\<close>.
\<close>

theorem probe_decides_final_slug:
  assumes slug: "generateSlug_of cfg (resolve_source cfg doc) = Inr newSlug" "newSlug \<noteq> []"
    and probe: "fetch_first cl (probe_query (doc_type doc) (slugField cfg))
           (probe_params newSlug (doc_id doc)) (world s) = (Inr existingDoc, w')"
    and final: "finalSlug = (case existingDoc of None \<Rightarrow> newSlug
                             | Some _ \<Rightarrow> newSlug @ ''-'' @ show_nat (fst (dn w')))"
  shows "calls (snd (process_doc dn cl cfg doc (r, s))) =
     calls s @
       Fetch (''*[_type == '' @ dquote @ doc_type doc @ dquote @ '' && '' @ slugField cfg @
              ''.current == $slug && _id != $id][0]'')
             [(''slug'', newSlug), (''id'', doc_id doc)] #
       (if dryRun cfg then [] else [PatchCommit (doc_id doc) (slugField cfg) finalSlug]) \<and>
     (store_throws dn cl cfg doc newSlug (world s) = None \<longrightarrow>
        fst (process_doc dn cl cfg doc (r, s)) =
        r\<lparr>converted := converted r + 1, slugsGenerated := slugsGenerated r @ [finalSlug]\<rparr>)"
proof -
  have fs: "fst (final_slug dn newSlug existingDoc w') = finalSlug"
    unfolding final by (cases existingDoc; cases "dn w'") (simp_all add: final_slug_def)
  from process_doc_calls [OF slug probe, of dn r] process_doc_success [OF slug probe, of dn r]
  show ?thesis
    unfolding fs by (simp add: probe_query_def probe_params_def record_success_def)
qed

theorem probe_decides_final_slug_witness:
  "calls (snd (process_doc mem_now (mem_client default_config) default_config (titled ''a'' ''Post'')
                 (start_result, app_with taken_posts))) =
     [Fetch (''*[_type == '' @ dquote @ ''post'' @ dquote @ '' && slug.current == $slug && _id != $id][0]'')
            [(''slug'', ''post''), (''id'', ''a'')],
      PatchCommit ''a'' ''slug'' ''post-1700''] \<and>
   fst (process_doc mem_now (mem_client default_config) default_config (titled ''a'' ''Post'')
          (start_result, app_with taken_posts)) =
     \<lparr>converted = 1, errors = [], slugsGenerated = [''post-1700'']\<rparr>"
proof -
  let ?cl = "mem_client default_config"
  let ?d = "titled ''a'' ''Post''"
  let ?s = "app_with taken_posts"
  have slug: "generateSlug_of default_config (resolve_source default_config ?d) = Inr ''post''"
    by code_simp
  have ne: "''post'' \<noteq> []" by simp
  have probe: "fetch_first ?cl (probe_query (doc_type ?d) (slugField default_config))
      (probe_params ''post'' (doc_id ?d)) (world ?s) = (Inr (Some (slugged ''x'' ''Other'' ''post'')), world ?s)"
    by code_simp
  have final: "''post-1700'' = (case Some (slugged ''x'' ''Other'' ''post'') of None \<Rightarrow> ''post''
      | Some _ \<Rightarrow> ''post'' @ ''-'' @ show_nat (fst (mem_now (world ?s))))"
    by code_simp
  have ok: "store_throws mem_now ?cl default_config ?d ''post'' (world ?s) = None"
    by code_simp
  have facts: "doc_type ?d = ''post''" "doc_id ?d = ''a''" "slugField default_config = ''slug''"
    "dryRun default_config = False" "calls ?s = []"
    "start_result\<lparr>converted := converted start_result + 1,
        slugsGenerated := slugsGenerated start_result @ [''post-1700'']\<rparr> =
     \<lparr>converted = 1, errors = [], slugsGenerated = [''post-1700'']\<rparr>"
    by code_simp+
  from probe_decides_final_slug [where dn = mem_now and cl = ?cl and cfg = default_config
      and doc = ?d and s = ?s and newSlug = "''post''" and w' = "world ?s"
      and existingDoc = "Some (slugged ''x'' ''Other'' ''post'')" and finalSlug = "''post-1700''"
      and r = start_result, OF slug ne probe final] ok
  show ?thesis
    unfolding facts by simp
qed

lemma after_docs_advance:
  "fold (process_doc dn cl cfg) (slice docs i (i + b)) (fold (process_doc dn cl cfg) (take i docs) st) =
   fold (process_doc dn cl cfg) (take (i + b) docs) st"
proof -
  have "take (i + b) docs = take i docs @ slice docs i (i + b)"
    by (simp add: slice_def take_add)
  then show ?thesis by simp
qed

lemma batch_loop_advance:
  assumes "i < length docs"
  shows "batch_loop dn cl cfg docs i
           (fst (fold (process_doc dn cl cfg) (take i docs) st),
            (snd (fold (process_doc dn cl cfg) (take i docs) st))\<lparr>messages := ms\<rparr>) =
         batch_loop dn cl cfg docs (i + batchSize cfg)
           (fst (fold (process_doc dn cl cfg) (take (i + batchSize cfg) docs) st),
            (snd (fold (process_doc dn cl cfg) (take (i + batchSize cfg) docs) st))
              \<lparr>messages := ms @
                 [progress_message cfg
                    (converted (fst (fold (process_doc dn cl cfg) (take (i + batchSize cfg) docs) st)))
                    (length docs)]\<rparr>)"
proof -
  let ?P = "process_doc dn cl cfg"
  let ?A = "fold ?P (take i docs) st"
  let ?B = "fold ?P (take (i + batchSize cfg) docs) st"
  have "fold ?P (slice docs i (i + batchSize cfg)) (fst ?A, (snd ?A)\<lparr>messages := ms\<rparr>) =
        apsnd (messages_update (\<lambda>_. ms)) ?B"
    using fold_process_doc_messages_update [of dn cl cfg "slice docs i (i + batchSize cfg)" "fst ?A" _ "snd ?A"]
    by (simp add: after_docs_advance)
  then show ?thesis
    by (subst batch_loop_step [OF assms]) (simp add: setMessage_def apsnd_def map_prod_def split_beta)
qed

text \<open>
  C7. For every list of 25 candidates and batch size 10, with any client, the run
  returns and has issued, after the opening message, exactly three progress
  messages and then the closing one: the first reports the converted count
  after the first 10 documents, the second after the first 20, the third after
  all 25, each as \<open><count>/25\<close>.
\<close>

theorem progress_after_each_batch:
  assumes len: "length (documentsToConvert s) = 25" and bs: "batchSize cfg = 10"
  shows "\<exists>s'. convertToSlugs dn (Some cl) cfg s = Some s' \<and>
     messages s' = messages s @
       [''Converting IDs to slugs...'',
        progress_message cfg (converted (fst (after_docs dn cl cfg 10 s))) 25,
        progress_message cfg (converted (fst (after_docs dn cl cfg 20 s))) 25,
        progress_message cfg (converted (fst (after_docs dn cl cfg 25 s))) 25,
        complete_message cfg (converted (fst (after_docs dn cl cfg 25 s)))]"
proof -
  let ?docs = "documentsToConvert s"
  let ?P = "process_doc dn cl cfg"
  let ?st = "start_state s"
  let ?A = "\<lambda>k. fold ?P (take k ?docs) ?st"
  let ?pm = "\<lambda>k. progress_message cfg (converted (fst (?A k))) 25"
  let ?L = "\<lambda>k ms. (fst (?A k), (snd (?A k))\<lparr>messages := ms\<rparr>)"
  let ?m0 = "messages s @ [''Converting IDs to slugs...'']"
  have A: "after_docs dn cl cfg k s = ?A k" for k
    by (simp add: after_docs_def)
  have "?st = ?L 0 ?m0"
    by (simp add: start_state_def setMessage_def)
  then have "batch_loop dn cl cfg ?docs 0 ?st = batch_loop dn cl cfg ?docs 0 (?L 0 ?m0)"
    by simp
  also have "\<dots> = batch_loop dn cl cfg ?docs 10 (?L 10 (?m0 @ [?pm 10]))"
    using batch_loop_advance [of 0 ?docs dn cl cfg ?st ?m0] len bs by simp
  also have "\<dots> = batch_loop dn cl cfg ?docs 20 (?L 20 (?m0 @ [?pm 10, ?pm 20]))"
    using batch_loop_advance [of 10 ?docs dn cl cfg ?st "?m0 @ [?pm 10]"] len bs by simp
  also have "\<dots> = batch_loop dn cl cfg ?docs 30 (?L 30 (?m0 @ [?pm 10, ?pm 20, ?pm 30]))"
    using batch_loop_advance [of 20 ?docs dn cl cfg ?st "?m0 @ [?pm 10, ?pm 20]"] len bs by simp
  also have "\<dots> = Some (?L 30 (?m0 @ [?pm 10, ?pm 20, ?pm 30]))"
    using len by (intro batch_loop_stop) simp
  finally have loop: "batch_loop dn cl cfg ?docs 0 ?st = Some (?L 30 (?m0 @ [?pm 10, ?pm 20, ?pm 30]))" .
  have all: "?A 30 = ?A 25" using len by simp
  from len have ne: "?docs \<noteq> []" by auto
  have "convertToSlugs dn (Some cl) cfg s =
     Some ((setMessage (complete_message cfg (converted (fst (?A 25))))
              ((snd (?A 25))\<lparr>messages := ?m0 @ [?pm 10, ?pm 20, ?pm 25]\<rparr>))
           \<lparr>onComplete_calls := onComplete_calls (snd (?A 25)) @ [fst (?A 25)], isLoading := False\<rparr>)"
    using loop ne unfolding all
    by (simp add: convertToSlugs_def start_state_def start_result_def)
  then show ?thesis
    unfolding A by (simp add: setMessage_def)
qed

theorem progress_after_each_batch_witness:
  "\<exists>s'. convertToSlugs mem_now (Some (mem_client default_config)) default_config
           (app_with (numbered_docs 25)) = Some s' \<and>
        messages s' =
          [''Converting IDs to slugs...'', ''Converted 10/25 documents...'',
           ''Converted 20/25 documents...'', ''Converted 25/25 documents...'',
           ''Conversion complete: 25 documents processed'']"
proof -
  let ?cl = "mem_client default_config"
  let ?s = "app_with (numbered_docs 25)"
  have len: "length (documentsToConvert ?s) = 25" by code_simp
  have bs: "batchSize default_config = 10" by code_simp
  from progress_after_each_batch [OF len bs, of mem_now ?cl]
  obtain s' where run: "convertToSlugs mem_now (Some ?cl) default_config ?s = Some s'"
    by blast
  moreover have "map_option messages (convertToSlugs mem_now (Some ?cl) default_config ?s) =
      Some [''Converting IDs to slugs...'', ''Converted 10/25 documents...'',
           ''Converted 20/25 documents...'', ''Converted 25/25 documents...'',
           ''Conversion complete: 25 documents processed'']"
    by code_simp
  ultimately show ?thesis by auto
qed

section \<open>Claims about the document scanner\<close>







lemma scanForDocuments_calls:
  "calls (scanForDocuments (Some cl) cfg s) = calls s @ [Fetch (scan_query cfg) []]"
  by (simp add: scanForDocuments_def setMessage_def Let_def split: prod.splits sum.splits)





lemma scan_query_empty_custom:
  "customGroqQuery cfg = [] \<Longrightarrow> scan_query (cfg\<lparr>useCustomQuery := b\<rparr>) = scan_query cfg"
  by (simp add: scan_query_def structured_query_def typeFilter_def searchFilter_def)

lemma needsConversion_useCustomQuery:
  "needsConversion (cfg\<lparr>useCustomQuery := b\<rparr>) = needsConversion cfg"
  by (rule ext) (simp add: needsConversion_def)

text \<open>
  C10. With the use-custom-query flag set and an empty custom query, the scanner
  does not send a raw query. The one query it sends is the structured one:
  \<open>*[\<close>, the type constraint (\<open>_type == "<selected type>"\<close>, or \<open>defined(_type)\<close> when
  no type is selected), the text match on title and name when a search term is
  given and nothing otherwise, the slice up to the result cap, and the
  projection of the fields. And it does so silently: the scan ends in the very
  state in which the scan with the flag unset ends, with the same messages, the
  same callbacks, the same documents and candidates.
\<close>

theorem empty_custom_query_falls_back_silently:
  assumes "useCustomQuery cfg" and "customGroqQuery cfg = []"
  shows "scanForDocuments (Some cl) cfg s =
         scanForDocuments (Some cl) (cfg\<lparr>useCustomQuery := False\<rparr>) s \<and>
     calls (scanForDocuments (Some cl) cfg s) =
     calls s @
       [Fetch (''*['' @
               (if selectedType cfg \<noteq> [] then ''_type == '' @ dquote @ selectedType cfg @ dquote
                else ''defined(_type)'') @
               (if searchQuery cfg \<noteq> []
                then '' && (title match '' @ dquote @ ''*'' @ searchQuery cfg @ ''*'' @ dquote @
                     '' || name match '' @ dquote @ ''*'' @ searchQuery cfg @ ''*'' @ dquote @ '')''
                else []) @
               ''][0...'' @ show_nat (maxDocuments cfg) @ ''] {'' @ newline @
               ''          _id,'' @ newline @
               ''          _type,'' @ newline @
               ''          title,'' @ newline @
               ''          name,'' @ newline @
               ''          '' @ slugField cfg @ newline @
               ''        }'') []]"
proof
  show "scanForDocuments (Some cl) cfg s = scanForDocuments (Some cl) (cfg\<lparr>useCustomQuery := False\<rparr>) s"
    by (simp add: scanForDocuments_def Let_def scan_query_empty_custom [OF assms(2)]
        needsConversion_useCustomQuery split: prod.splits sum.splits)
next
  from assms scanForDocuments_calls [of cl cfg s]
  show "calls (scanForDocuments (Some cl) cfg s) =
     calls s @
       [Fetch (''*['' @
               (if selectedType cfg \<noteq> [] then ''_type == '' @ dquote @ selectedType cfg @ dquote
                else ''defined(_type)'') @
               (if searchQuery cfg \<noteq> []
                then '' && (title match '' @ dquote @ ''*'' @ searchQuery cfg @ ''*'' @ dquote @
                     '' || name match '' @ dquote @ ''*'' @ searchQuery cfg @ ''*'' @ dquote @ '')''
                else []) @
               ''][0...'' @ show_nat (maxDocuments cfg) @ ''] {'' @ newline @
               ''          _id,'' @ newline @
               ''          _type,'' @ newline @
               ''          title,'' @ newline @
               ''          name,'' @ newline @
               ''          '' @ slugField cfg @ newline @
               ''        }'') []]"
    by (simp add: scan_query_def structured_query_def typeFilter_def searchFilter_def)
qed

theorem empty_custom_query_falls_back_silently_witness:
  "calls (scanForDocuments
            (Some (mem_client (default_config\<lparr>useCustomQuery := True, selectedType := ''post'',
                                               searchQuery := ''hello''\<rparr>)))
            (default_config\<lparr>useCustomQuery := True, selectedType := ''post'', searchQuery := ''hello''\<rparr>)
            (fresh_app (store_of greeting_docs))) =
     [Fetch (''*[_type == '' @ dquote @ ''post'' @ dquote @
             '' && (title match '' @ dquote @ ''*hello*'' @ dquote @
             '' || name match '' @ dquote @ ''*hello*'' @ dquote @ '')][0...1000] {'' @ newline @
             ''          _id,'' @ newline @
             ''          _type,'' @ newline @
             ''          title,'' @ newline @
             ''          name,'' @ newline @
             ''          slug'' @ newline @
             ''        }'') []] \<and>
   messages (scanForDocuments
            (Some (mem_client (default_config\<lparr>useCustomQuery := True, selectedType := ''post'',
                                               searchQuery := ''hello''\<rparr>)))
            (default_config\<lparr>useCustomQuery := True, selectedType := ''post'', searchQuery := ''hello''\<rparr>)
            (fresh_app (store_of greeting_docs))) =
     [''Scanning for documents...'', ''Found 1 documents that need slug conversion''] \<and>
   documents (scanForDocuments
            (Some (mem_client (default_config\<lparr>useCustomQuery := True, selectedType := ''post'',
                                               searchQuery := ''hello''\<rparr>)))
            (default_config\<lparr>useCustomQuery := True, selectedType := ''post'', searchQuery := ''hello''\<rparr>)
            (fresh_app (store_of greeting_docs))) =
     [titled ''a'' ''Say Hello'']"
proof -
  let ?cfg = "default_config\<lparr>useCustomQuery := True, selectedType := ''post'', searchQuery := ''hello''\<rparr>"
  let ?s = "fresh_app (store_of greeting_docs)"
  have a: "useCustomQuery ?cfg" by simp
  have b: "customGroqQuery ?cfg = []" by (simp add: default_config_def)
  have c: "selectedType ?cfg = ''post''" "searchQuery ?cfg = ''hello''"
    "show_nat (maxDocuments ?cfg) = ''1000''" "slugField ?cfg = ''slug''" "calls ?s = []"
    by code_simp+
  have m: "messages (scanForDocuments (Some (mem_client ?cfg)) ?cfg ?s) =
      [''Scanning for documents...'', ''Found 1 documents that need slug conversion'']"
    by code_simp
  have d: "documents (scanForDocuments (Some (mem_client ?cfg)) ?cfg ?s) = [titled ''a'' ''Say Hello'']"
    by code_simp
  from conjunct2 [OF empty_custom_query_falls_back_silently [OF a b, of "mem_client ?cfg" ?s]] m d
  show ?thesis unfolding c by simp
qed




end
